theory Spec2Isabelle
  imports Main "HOL-Library.Word"
begin

section \<open>The circuit breaker\<close>

text \<open>
  The embedding follows \<^verbatim>\<open>src/patterns/circuit_breaker.go\<close>. The mutex of the struct
  is held for the whole of \<^verbatim>\<open>Call\<close>, so one call is one step of the model; the lock
  itself is not modelled.
\<close>

subsection \<open>Data\<close>

text \<open>\<^verbatim>\<open>type CircuitState int\<close> with its three constants (lines 10-16).\<close>

datatype CircuitState = CLOSED | OPEN | HALF_OPEN

text \<open>
  An instant (\<^verbatim>\<open>time.Time\<close>) is a number of nanoseconds, counted from the Unix
  epoch; a \<^verbatim>\<open>time.Duration\<close> is a number of nanoseconds. Go keeps a duration in an
  \<^verbatim>\<open>int64\<close>, and the difference of two instants saturates at the ends of that range.
\<close>

type_synonym time = int
type_synonym duration = int

definition maxDuration :: duration where
  "maxDuration = 2 ^ 63 - 1"

definition minDuration :: duration where
  "minDuration = - (2 ^ 63)"

text \<open>The zero value of \<^verbatim>\<open>time.Time\<close>: 1 January of year 1, 00:00 UTC.\<close>

definition zeroTime :: time where
  "zeroTime = - 62135596800000000000"

text \<open>
  \<^verbatim>\<open>time.Since(t)\<close>, read at the instant \<open>t_now\<close>: the library's
  \<^verbatim>\<open>Now().Sub(t)\<close>, which returns the largest or the smallest duration when the
  difference does not fit.
\<close>

definition Since :: "time \<Rightarrow> time \<Rightarrow> duration" where
  "Since t_now t =
     (let d = t_now - t in
      if maxDuration < d then maxDuration
      else if d < minDuration then minDuration
      else d)"

text \<open>
  The struct of lines 31-38, without its mutex. \<^verbatim>\<open>failureCount\<close> and
  \<^verbatim>\<open>failureThreshold\<close> are Go \<^verbatim>\<open>int\<close>s: two's complement words (of 64 bits, as
  on the usual platforms), on which \<^verbatim>\<open>++\<close> wraps around and \<^verbatim>\<open>>=\<close> compares
  the signed values.
\<close>

record CircuitBreaker =
  state :: CircuitState
  failureCount :: "64 word"
  lastFailure :: time
  failureThreshold :: "64 word"
  timeout :: duration

text \<open>
  A Go \<^verbatim>\<open>error\<close> as a caller can inspect it: the value that \<^verbatim>\<open>fmt.Errorf\<close> and
  \<^verbatim>\<open>errors.New\<close> build carries its message and nothing else; every other error
  type is a value of the caller's type \<open>'e\<close>. \<^verbatim>\<open>nil\<close> is \<open>None\<close>.
\<close>

datatype 'e error = ErrorString string | OpError 'e

text \<open>
  The world outside the breaker: the clock that \<^verbatim>\<open>time.Now\<close> reads, and whatever
  else the wrapped operation can change (the extension of the record). A wrapped
  \<^verbatim>\<open>func() error\<close> that returns is a function that gives \<^verbatim>\<open>nil\<close> or an error
  and the world it leaves behind. A \<^verbatim>\<open>func() error\<close> can also leave \<^verbatim>\<open>Call\<close>
  without returning to it (a panic, a \<^verbatim>\<open>nil\<close> function, \<^verbatim>\<open>runtime.Goexit\<close>): that
  exit is modelled by \<open>Call_exit\<close> below, which agrees with \<open>Call\<close> on the operations
  that return. An operation that runs forever is outside the model: its call stays in
  progress.
\<close>

record world =
  now :: time

type_synonym ('e, 'a) operation = "'a world_scheme \<Rightarrow> 'e error option \<times> 'a world_scheme"

subsection \<open>Operations\<close>

text \<open>\<^verbatim>\<open>NewCircuitBreaker\<close> (lines 40-46): the fields not named keep their zero value.\<close>

definition NewCircuitBreaker :: "64 word \<Rightarrow> duration \<Rightarrow> CircuitBreaker" where
  "NewCircuitBreaker threshold tmo =
     \<lparr>state = CLOSED, failureCount = 0, lastFailure = zeroTime,
      failureThreshold = threshold, timeout = tmo\<rparr>"

text \<open>The error built at line 57, \<^verbatim>\<open>fmt.Errorf("circuit breaker is OPEN")\<close>.\<close>

definition BreakerOpenError :: "'e error" where
  "BreakerOpenError = ErrorString ''circuit breaker is OPEN''"

text \<open>
  Lines 52-59 of \<^verbatim>\<open>Call\<close>, with the clock reading \<open>t\<close> of \<^verbatim>\<open>time.Since\<close>:
  the early return is \<open>Inl\<close>, and \<open>Inr\<close> carries the breaker with which the call
  goes on to line 61.
\<close>

definition Call_admit :: "CircuitBreaker \<Rightarrow> time \<Rightarrow> 'e error + CircuitBreaker" where
  "Call_admit cb t =
     (if state cb = OPEN then
        (if timeout cb < Since t (lastFailure cb)
         then Inr (cb\<lparr>state := HALF_OPEN, failureCount := 0\<rparr>)
         else Inl BreakerOpenError)
      else Inr cb)"

text \<open>
  Lines 62-82 of \<^verbatim>\<open>Call\<close>: what the breaker records for the result \<open>err\<close> of the
  operation, with the clock reading \<open>t\<close> of \<^verbatim>\<open>time.Now\<close> taken after the operation
  has returned.
\<close>

definition Call_record :: "CircuitBreaker \<Rightarrow> 'e error option \<Rightarrow> time \<Rightarrow> CircuitBreaker" where
  "Call_record cb err t =
     (case err of
        Some e \<Rightarrow>
          (let cb1 = cb\<lparr>failureCount := failureCount cb + 1\<rparr> in
           if state cb1 = HALF_OPEN then cb1\<lparr>state := OPEN, lastFailure := t\<rparr>
           else
             (let cb2 = cb1\<lparr>lastFailure := t\<rparr> in
              if failureThreshold cb2 \<le>s failureCount cb2 then cb2\<lparr>state := OPEN\<rparr>
              else cb2))
      | None \<Rightarrow>
          (let cb1 = (if state cb = HALF_OPEN then cb\<lparr>state := CLOSED\<rparr> else cb) in
           cb1\<lparr>failureCount := 0\<rparr>))"

text \<open>
  \<^verbatim>\<open>Call\<close> (lines 48-83) with an operation that returns: the returned error, the
  breaker and the world after the call. The operation \<open>fn\<close> is applied at line 61 only.
\<close>

definition Call ::
  "CircuitBreaker \<Rightarrow> ('e, 'a) operation \<Rightarrow> 'a world_scheme \<Rightarrow>
     'e error option \<times> CircuitBreaker \<times> 'a world_scheme" where
  "Call cb fn w =
     (case Call_admit cb (now w) of
        Inl e \<Rightarrow> (Some e, cb, w)
      | Inr cb1 \<Rightarrow>
          (case fn w of (err, w1) \<Rightarrow> (err, Call_record cb1 err (now w1), w1)))"

text \<open>\<^verbatim>\<open>GetState\<close> (lines 85-89).\<close>

definition GetState :: "CircuitBreaker \<Rightarrow> CircuitState" where
  "GetState cb = state cb"

text \<open>
  Whether a call that arrives at the breaker \<open>cb\<close> in the world \<open>w\<close> gets to line 61,
  where the operation is invoked.
\<close>

definition invokes :: "CircuitBreaker \<Rightarrow> 'a world_scheme \<Rightarrow> bool" where
  "invokes cb w = (state cb \<noteq> OPEN \<or> timeout cb < Since (now w) (lastFailure cb))"

text \<open>
  A caller's sequence of calls, as the demonstrations of the file make them: before
  each call the world moves on by \<open>gap\<close> (time passes), then \<^verbatim>\<open>Call\<close> runs the
  operation. The results are collected in order.
\<close>

type_synonym ('e, 'a) request = "('a world_scheme \<Rightarrow> 'a world_scheme) \<times> ('e, 'a) operation"

fun Calls ::
  "CircuitBreaker \<Rightarrow> ('e, 'a) request list \<Rightarrow> 'a world_scheme \<Rightarrow>
     'e error option list \<times> CircuitBreaker \<times> 'a world_scheme" where
  "Calls cb [] w = ([], cb, w)"
| "Calls cb ((gap, fn) # rqs) w =
     (case Call cb fn (gap w) of
        (r, cb1, w1) \<Rightarrow>
          (case Calls cb1 rqs w1 of (rs, cb2, w2) \<Rightarrow> (r # rs, cb2, w2)))"

text \<open>The breaker is \<open>CLOSED\<close> when each call of the sequence arrives.\<close>

fun closed_at_each_call ::
  "CircuitBreaker \<Rightarrow> ('e, 'a) request list \<Rightarrow> 'a world_scheme \<Rightarrow> bool" where
  "closed_at_each_call cb [] w = True"
| "closed_at_each_call cb ((gap, fn) # rqs) w =
     (state cb = CLOSED \<and>
      (case Call cb fn (gap w) of (r, cb1, w1) \<Rightarrow> closed_at_each_call cb1 rqs w1))"

text \<open>
  Following the specification's words: the count of consecutive failures since the last
  success, or since the start of the sequence, in a list of results, given the count
  \<open>n\<close> before the list.
\<close>

fun spec_consecutive_failures :: "nat \<Rightarrow> 'e error option list \<Rightarrow> nat" where
  "spec_consecutive_failures n [] = n"
| "spec_consecutive_failures n (None # rs) = spec_consecutive_failures 0 rs"
| "spec_consecutive_failures n (Some e # rs) = spec_consecutive_failures (Suc n) rs"

text \<open>Two operations for concrete scenarios: one fails with \<open>e\<close>, one succeeds.\<close>

definition failing :: "'e error \<Rightarrow> ('e, 'a) operation" where
  "failing e w = (Some e, w)"

definition succeeding :: "('e, 'a) operation" where
  "succeeding w = (None, w)"

subsection \<open>Operations that do not return\<close>

text \<open>
  What line 61 can do: the operation returns \<^verbatim>\<open>nil\<close> or an error, or control
  leaves \<^verbatim>\<open>Call\<close> there. \<open>Panics\<close> stands for a panic inside the operation, for a
  \<^verbatim>\<open>nil\<close> function (calling it panics) and for \<^verbatim>\<open>runtime.Goexit\<close>: in each case
  the deferred \<^verbatim>\<open>Unlock\<close> of line 50 runs, lines 62-82 do not, and \<^verbatim>\<open>Call\<close> has no
  \<^verbatim>\<open>recover\<close>.
\<close>

datatype 'e outcome = Returns "'e error option" | Panics

type_synonym ('e, 'a) go_func = "'a world_scheme \<Rightarrow> 'e outcome \<times> 'a world_scheme"

text \<open>
  \<^verbatim>\<open>Call\<close> (lines 48-83) with that exit: how the call ends, the breaker and the world
  after it. When the operation does not return, the breaker keeps the fields that lines
  52-59 gave it.
\<close>

definition Call_exit ::
  "CircuitBreaker \<Rightarrow> ('e, 'a) go_func \<Rightarrow> 'a world_scheme \<Rightarrow>
     'e outcome \<times> CircuitBreaker \<times> 'a world_scheme" where
  "Call_exit cb fn w =
     (case Call_admit cb (now w) of
        Inl e \<Rightarrow> (Returns (Some e), cb, w)
      | Inr cb1 \<Rightarrow>
          (case fn w of
             (Returns err, w1) \<Rightarrow> (Returns err, Call_record cb1 err (now w1), w1)
           | (Panics, w1) \<Rightarrow> (Panics, cb1, w1)))"

text \<open>A sequence of such calls, by a caller that recovers from the panics.\<close>

fun Calls_exit ::
  "CircuitBreaker \<Rightarrow> (('a world_scheme \<Rightarrow> 'a world_scheme) \<times> ('e, 'a) go_func) list \<Rightarrow>
     'a world_scheme \<Rightarrow> 'e outcome list \<times> CircuitBreaker \<times> 'a world_scheme" where
  "Calls_exit cb [] w = ([], cb, w)"
| "Calls_exit cb ((gap, fn) # rqs) w =
     (case Call_exit cb fn (gap w) of
        (r, cb1, w1) \<Rightarrow>
          (case Calls_exit cb1 rqs w1 of (rs, cb2, w2) \<Rightarrow> (r # rs, cb2, w2)))"

text \<open>An operation that returns, as a \<open>go_func\<close>; and one that panics at once.\<close>

definition returning :: "('e, 'a) operation \<Rightarrow> ('e, 'a) go_func" where
  "returning fn w = (case fn w of (err, w1) \<Rightarrow> (Returns err, w1))"

definition panicking :: "('e, 'a) go_func" where
  "panicking w = (Panics, w)"

section \<open>Properties\<close>

text \<open>
  What \<open>invokes\<close> decides: a call that does not get to line 61 returns the rejection
  and changes nothing, whatever the operation; a call that does returns the operation's
  result and leaves the operation's world.
\<close>

lemma Call_rejects:
  "\<not> invokes cb w \<Longrightarrow> Call cb fn w = (Some BreakerOpenError, cb, w)"
  by (simp add: invokes_def Call_def Call_admit_def)

lemma Call_invokes:
  "invokes cb w \<Longrightarrow> fn w = (err, w1) \<Longrightarrow>
   Call cb fn w =
     (err,
      Call_record (if state cb = OPEN then cb\<lparr>state := HALF_OPEN, failureCount := 0\<rparr> else cb)
        err (now w1),
      w1)"
  by (auto simp add: invokes_def Call_def Call_admit_def)

text \<open>Evaluation of the model on concrete breakers, operations and clock readings.\<close>

lemmas eval_defs =
  Call_def Call_admit_def Call_record_def NewCircuitBreaker_def Since_def maxDuration_def
  minDuration_def zeroTime_def failing_def succeeding_def word_sle_eq invokes_def
  BreakerOpenError_def GetState_def

text \<open>
  The increment of line 63 does not wrap around below a threshold: a count that is
  less than some \<^verbatim>\<open>int\<close> is not the largest one.
\<close>

lemma sint_incr:
  fixes c thr :: "64 word"
  assumes "sint c < sint thr"
  shows "sint (c + 1) = sint c + 1"
proof -
  have "sint thr < 2 ^ 63" using sint_lt [of thr] by simp
  moreover have "- (2 ^ 63) \<le> sint c" using sint_ge [of c] by simp
  ultimately have "- (2 ^ 63) \<le> sint c + 1" and "sint c + 1 < 2 ^ 63"
    using assms by linarith+
  then show ?thesis
    by (simp add: sint_word_ariths signed_take_bit_int_eq_self)
qed

text \<open>One call on a closed breaker, by the result of the operation.\<close>

lemma Call_closed_failure:
  assumes "state cb = CLOSED" and "fn w = (Some e, w1)"
  shows "Call cb fn w =
     (Some e,
      cb\<lparr>failureCount := failureCount cb + 1, lastFailure := now w1,
         state := (if failureThreshold cb \<le>s failureCount cb + 1 then OPEN else CLOSED)\<rparr>,
      w1)"
  using assms by (simp add: Call_def Call_admit_def Call_record_def)

lemma Call_closed_success:
  assumes "state cb = CLOSED" and "fn w = (None, w1)"
  shows "Call cb fn w = (None, cb\<lparr>failureCount := 0\<rparr>, w1)"
  using assms by (simp add: Call_def Call_admit_def Call_record_def)

text \<open>
  A breaker is closed with a count of 0 when it is new, and whenever a call leaves it
  closed after a success or after it was not closed: these are the points from which
  a run of failures is counted.
\<close>

lemma NewCircuitBreaker_closed:
  "state (NewCircuitBreaker thr tmo) = CLOSED
   \<and> failureCount (NewCircuitBreaker thr tmo) = 0
   \<and> failureThreshold (NewCircuitBreaker thr tmo) = thr"
  by (simp add: NewCircuitBreaker_def)

lemma closed_period_starts_at_zero:
  assumes "Call cb fn w = (r, cb', w')" and "state cb' = CLOSED"
    and "state cb \<noteq> CLOSED \<or> r = None"
  shows "failureCount cb' = 0"
  using assms
  by (cases "state cb")
    (auto simp add: Call_def Call_admit_def Call_record_def split: if_splits prod.splits option.splits)

text \<open>No call returns with the breaker half-open.\<close>

lemma Call_not_half_open: "state (fst (snd (Call cb fn w))) \<noteq> HALF_OPEN"
  by (auto simp add: Call_def Call_admit_def Call_record_def Let_def
      split: prod.splits option.splits)

lemma Calls_not_half_open:
  "state cb \<noteq> HALF_OPEN \<Longrightarrow> state (fst (snd (Calls cb rqs w))) \<noteq> HALF_OPEN"
proof (induction rqs arbitrary: cb w)
  case Nil
  then show ?case by simp
next
  case (Cons rq rqs)
  obtain gap fn where rq: "rq = (gap, fn)" by (cases rq)
  obtain r cb1 w1 where c: "Call cb fn (gap w) = (r, cb1, w1)" by (cases "Call cb fn (gap w)")
  have "state cb1 \<noteq> HALF_OPEN" using Call_not_half_open [of cb fn "gap w"] c by simp
  from Cons.IH [OF this, of w1] show ?case
    by (auto simp add: rq c split: prod.splits)
qed

text \<open>
  The invariant of a run of calls that each find the breaker closed: the failure count
  is the number of consecutive failures, it never passes the threshold, and the breaker
  is open exactly when the two are equal.
\<close>

lemma closed_run_invariant:
  assumes "closed_at_each_call cb rqs w"
    and "Calls cb rqs w = (rs, cb', w')"
    and "sint (failureCount cb) = int n"
    and "int n \<le> sint (failureThreshold cb)"
    and "0 < sint (failureThreshold cb)"
    and "state cb = OPEN \<longleftrightarrow> int n = sint (failureThreshold cb)"
    and "state cb \<noteq> HALF_OPEN"
  shows "failureThreshold cb' = failureThreshold cb
         \<and> sint (failureCount cb') = int (spec_consecutive_failures n rs)
         \<and> int (spec_consecutive_failures n rs) \<le> sint (failureThreshold cb)
         \<and> (state cb' = OPEN \<longleftrightarrow>
              int (spec_consecutive_failures n rs) = sint (failureThreshold cb))
         \<and> state cb' \<noteq> HALF_OPEN"
  using assms
proof (induction rqs arbitrary: cb w rs n)
  case Nil
  then show ?case by simp
next
  case (Cons rq rqs)
  obtain gap fn where rq: "rq = (gap, fn)" by (cases rq)
  obtain r w1 where f: "fn (gap w) = (r, w1)" by (cases "fn (gap w)")
  have closed: "state cb = CLOSED"
    using Cons.prems(1) by (simp add: rq)
  obtain cb1 where c: "Call cb fn (gap w) = (r, cb1, w1)"
    using f closed by (simp add: Call_def Call_admit_def)
  obtain rs1 where rest: "Calls cb1 rqs w1 = (rs1, cb', w')" and rs: "rs = r # rs1"
    using Cons.prems(2) by (auto simp add: rq c split: prod.splits)
  have later: "closed_at_each_call cb1 rqs w1"
    using Cons.prems(1) by (simp add: rq c)
  have below: "int n < sint (failureThreshold cb)"
    using Cons.prems(4,6) closed by simp
  show ?case
  proof (cases r)
    case None
    have cb1: "cb1 = cb\<lparr>failureCount := 0\<rparr>"
      using Call_closed_success [OF closed, of fn "gap w" w1] f c None by simp
    have "failureThreshold cb' = failureThreshold cb1
         \<and> sint (failureCount cb') = int (spec_consecutive_failures 0 rs1)
         \<and> int (spec_consecutive_failures 0 rs1) \<le> sint (failureThreshold cb1)
         \<and> (state cb' = OPEN \<longleftrightarrow>
              int (spec_consecutive_failures 0 rs1) = sint (failureThreshold cb1))
         \<and> state cb' \<noteq> HALF_OPEN"
      using Cons.prems(5) closed by (intro Cons.IH [OF later rest]) (simp_all add: cb1)
    then show ?thesis by (simp add: rs None cb1)
  next
    case (Some e)
    have incr: "sint (failureCount cb + 1) = int (Suc n)"
      using sint_incr [of "failureCount cb" "failureThreshold cb"] below Cons.prems(3) by simp
    have cb1: "cb1 = cb\<lparr>failureCount := failureCount cb + 1, lastFailure := now w1,
         state := (if failureThreshold cb \<le>s failureCount cb + 1 then OPEN else CLOSED)\<rparr>"
      using Call_closed_failure [OF closed, of fn "gap w" e w1] f c Some by simp
    have "failureThreshold cb' = failureThreshold cb1
         \<and> sint (failureCount cb') = int (spec_consecutive_failures (Suc n) rs1)
         \<and> int (spec_consecutive_failures (Suc n) rs1) \<le> sint (failureThreshold cb1)
         \<and> (state cb' = OPEN \<longleftrightarrow>
              int (spec_consecutive_failures (Suc n) rs1) = sint (failureThreshold cb1))
         \<and> state cb' \<noteq> HALF_OPEN"
      using Cons.prems(5) below incr
      by (intro Cons.IH [OF later rest]) (auto simp add: cb1 word_sle_eq)
    then show ?thesis by (simp add: rs Some cb1)
  qed
qed

subsection \<open>Tripping at the threshold\<close>

text \<open>
  Claim C1. Take a breaker with a positive threshold that is closed with a failure count
  of 0 (a new one, or one that a success has just reset), and any sequence of calls
  each of which finds it closed. After the sequence the breaker is open exactly when
  the number of consecutive failures since the last success, or since the start, equals
  the threshold, and closed exactly when that number is less; the number never passes
  the threshold, so the breaker opens on the very call that reaches it, and the failure
  count of the breaker is that number.
\<close>

theorem closed_trips_exactly_at_threshold:
  assumes "state cb = CLOSED" and "failureCount cb = 0"
    and "0 < sint (failureThreshold cb)"
    and "closed_at_each_call cb rqs w"
    and "Calls cb rqs w = (rs, cb', w')"
  shows "(state cb' = OPEN \<longleftrightarrow>
            int (spec_consecutive_failures 0 rs) = sint (failureThreshold cb))
         \<and> (state cb' = CLOSED \<longleftrightarrow>
            int (spec_consecutive_failures 0 rs) < sint (failureThreshold cb))
         \<and> int (spec_consecutive_failures 0 rs) \<le> sint (failureThreshold cb)
         \<and> sint (failureCount cb') = int (spec_consecutive_failures 0 rs)"
proof -
  have "failureThreshold cb' = failureThreshold cb
         \<and> sint (failureCount cb') = int (spec_consecutive_failures 0 rs)
         \<and> int (spec_consecutive_failures 0 rs) \<le> sint (failureThreshold cb)
         \<and> (state cb' = OPEN \<longleftrightarrow>
              int (spec_consecutive_failures 0 rs) = sint (failureThreshold cb))
         \<and> state cb' \<noteq> HALF_OPEN"
    using assms(1,2,3) by (intro closed_run_invariant [OF assms(4,5)]) simp_all
  then show ?thesis by (cases "state cb'") auto
qed

theorem closed_trips_exactly_at_threshold_witness:
  "state (NewCircuitBreaker 3 5) = CLOSED \<and> failureCount (NewCircuitBreaker 3 5) = 0
   \<and> 0 < sint (failureThreshold (NewCircuitBreaker 3 5))
   \<and> closed_at_each_call (NewCircuitBreaker 3 5)
        [(id, failing (OpError ())), (id, failing (OpError ())), (id, failing (OpError ()))]
        \<lparr>now = 0\<rparr>
   \<and> Calls (NewCircuitBreaker 3 5)
        [(id, failing (OpError ())), (id, failing (OpError ())), (id, failing (OpError ()))]
        \<lparr>now = 0\<rparr>
       = ([Some (OpError ()), Some (OpError ()), Some (OpError ())],
          NewCircuitBreaker 3 5\<lparr>state := OPEN, failureCount := 3, lastFailure := 0\<rparr>,
          \<lparr>now = 0\<rparr>)
   \<and> int (spec_consecutive_failures 0 [Some (OpError ()), Some (OpError ()), Some (OpError ())])
       = sint (failureThreshold (NewCircuitBreaker 3 5))"
proof -
  let ?cb = "NewCircuitBreaker 3 5"
  let ?rqs = "[(id, failing (OpError ())), (id, failing (OpError ())), (id, failing (OpError ()))]
     :: (unit, unit) request list"
  let ?rs = "[Some (OpError ()), Some (OpError ()), Some (OpError ())] :: unit error option list"
  let ?cb' = "NewCircuitBreaker 3 5\<lparr>state := OPEN, failureCount := 3, lastFailure := 0\<rparr>"
  have a: "state ?cb = CLOSED" and b: "failureCount ?cb = 0"
    and c: "0 < sint (failureThreshold ?cb)"
    by (simp_all add: NewCircuitBreaker_def)
  have d: "closed_at_each_call ?cb ?rqs \<lparr>now = 0\<rparr>"
    by (simp add: eval_defs)
  have e: "Calls ?cb ?rqs \<lparr>now = 0\<rparr> = (?rs, ?cb', \<lparr>now = 0\<rparr>)"
    by (simp add: eval_defs)
  from closed_trips_exactly_at_threshold [OF a b c d e] a b c d e
  show ?thesis by simp
qed

subsection \<open>Rejection while open\<close>

text \<open>
  Claim C2. A call that arrives while the breaker is \<open>OPEN\<close> and the time since
  \<^verbatim>\<open>lastFailure\<close>, as \<^verbatim>\<open>time.Since\<close> measures it, is at most the timeout returns
  the rejection error; the breaker (its state, its failure count, its last failure
  time) and the world are what they were, whatever the operation is: the operation is
  not invoked.
\<close>

theorem open_within_timeout_rejects:
  assumes "state cb = OPEN" and "Since (now w) (lastFailure cb) \<le> timeout cb"
  shows "Call cb fn w = (Some BreakerOpenError, cb, w) \<and> \<not> invokes cb w"
  using assms by (simp add: Call_def Call_admit_def invokes_def)

theorem open_within_timeout_rejects_witness:
  "state (NewCircuitBreaker 3 5\<lparr>state := OPEN, failureCount := 3, lastFailure := 10\<rparr>) = OPEN
   \<and> Since (now \<lparr>now = 15\<rparr>)
         (lastFailure (NewCircuitBreaker 3 5\<lparr>state := OPEN, failureCount := 3, lastFailure := 10\<rparr>))
       \<le> timeout (NewCircuitBreaker 3 5\<lparr>state := OPEN, failureCount := 3, lastFailure := 10\<rparr>)
   \<and> Call (NewCircuitBreaker 3 5\<lparr>state := OPEN, failureCount := 3, lastFailure := 10\<rparr>)
         (succeeding :: (unit, unit) operation) \<lparr>now = 15\<rparr>
       = (Some BreakerOpenError,
          NewCircuitBreaker 3 5\<lparr>state := OPEN, failureCount := 3, lastFailure := 10\<rparr>,
          \<lparr>now = 15\<rparr>)"
proof -
  let ?cb = "NewCircuitBreaker 3 5\<lparr>state := OPEN, failureCount := 3, lastFailure := 10\<rparr>"
  have s: "state ?cb = OPEN"
    by (simp add: NewCircuitBreaker_def)
  have t: "Since (now \<lparr>now = 15\<rparr>) (lastFailure ?cb) \<le> timeout ?cb"
    by (simp add: NewCircuitBreaker_def Since_def maxDuration_def minDuration_def)
  from open_within_timeout_rejects [OF s t, of "succeeding :: (unit, unit) operation"] s t
  show ?thesis by simp
qed

subsection \<open>The probe\<close>

text \<open>
  Claim C3. A call that arrives while the breaker is \<open>OPEN\<close> and the time since
  \<^verbatim>\<open>lastFailure\<close>, as \<^verbatim>\<open>time.Since\<close> measures it, is greater than the timeout
  moves the breaker to \<open>HALF_OPEN\<close> with a failure count of 0 and invokes the operation:
  the call returns the operation's result and leaves the operation's world, and that
  result decides the state in which the call leaves the breaker (\<open>CLOSED\<close> after a
  success, \<open>OPEN\<close> after a failure).
\<close>

theorem open_after_timeout_probes:
  assumes "state cb = OPEN" and "timeout cb < Since (now w) (lastFailure cb)"
    and "(fn :: ('e, 'a) operation) w = (err, w1)"
  shows "(Call_admit cb (now w) :: 'e error + CircuitBreaker)
           = Inr (cb\<lparr>state := HALF_OPEN, failureCount := 0\<rparr>)
         \<and> Call cb fn w
           = (err, Call_record (cb\<lparr>state := HALF_OPEN, failureCount := 0\<rparr>) err (now w1), w1)
         \<and> state (fst (snd (Call cb fn w))) = (case err of None \<Rightarrow> CLOSED | Some e \<Rightarrow> OPEN)"
  using assms by (simp add: Call_def Call_admit_def Call_record_def split: option.split)

theorem open_after_timeout_probes_witness:
  "state (NewCircuitBreaker 3 5\<lparr>state := OPEN, failureCount := 3, lastFailure := 10\<rparr>) = OPEN
   \<and> timeout (NewCircuitBreaker 3 5\<lparr>state := OPEN, failureCount := 3, lastFailure := 10\<rparr>)
       < Since (now \<lparr>now = 16\<rparr>)
           (lastFailure (NewCircuitBreaker 3 5\<lparr>state := OPEN, failureCount := 3, lastFailure := 10\<rparr>))
   \<and> Call (NewCircuitBreaker 3 5\<lparr>state := OPEN, failureCount := 3, lastFailure := 10\<rparr>)
         (failing (OpError ()) :: (unit, unit) operation) \<lparr>now = 16\<rparr>
       = (Some (OpError ()),
          NewCircuitBreaker 3 5\<lparr>state := OPEN, failureCount := 1, lastFailure := 16\<rparr>,
          \<lparr>now = 16\<rparr>)"
proof -
  let ?cb = "NewCircuitBreaker 3 5\<lparr>state := OPEN, failureCount := 3, lastFailure := 10\<rparr>"
  let ?fn = "failing (OpError ()) :: (unit, unit) operation"
  have s: "state ?cb = OPEN"
    by (simp add: NewCircuitBreaker_def)
  have t: "timeout ?cb < Since (now \<lparr>now = 16\<rparr>) (lastFailure ?cb)"
    by (simp add: NewCircuitBreaker_def Since_def maxDuration_def minDuration_def)
  have f: "?fn \<lparr>now = 16\<rparr> = (Some (OpError ()), \<lparr>now = 16\<rparr>)"
    by (simp add: failing_def)
  from open_after_timeout_probes
    [of ?cb "\<lparr>now = 16\<rparr>" ?fn "Some (OpError ())" "\<lparr>now = 16\<rparr>", OF s t f] s t
  show ?thesis by (simp add: Call_record_def NewCircuitBreaker_def)
qed

text \<open>
  Claim C4. A call runs the operation as a half-open probe when it finds the breaker
  \<open>OPEN\<close> with the timeout passed (or finds it \<open>HALF_OPEN\<close>). If the operation fails,
  the call leaves the breaker \<open>OPEN\<close> with \<^verbatim>\<open>lastFailure\<close> set to the clock reading
  after the operation, whatever the failure count and the threshold are; if it
  succeeds, the call leaves the breaker \<open>CLOSED\<close> with a failure count of 0.
\<close>

theorem half_open_probe_resolves:
  assumes "(state cb = OPEN \<and> timeout cb < Since (now w) (lastFailure cb)) \<or> state cb = HALF_OPEN"
    and "Call cb fn w = (r, cb', w')"
  shows "(r \<noteq> None \<longrightarrow> state cb' = OPEN \<and> lastFailure cb' = now w')
         \<and> (r = None \<longrightarrow> state cb' = CLOSED \<and> failureCount cb' = 0)
         \<and> r = fst (fn w) \<and> w' = snd (fn w)"
  using assms
  by (auto simp add: Call_def Call_admit_def Call_record_def split: prod.splits option.splits)

theorem half_open_probe_resolves_witness:
  "state (NewCircuitBreaker 3 5\<lparr>state := OPEN, failureCount := 3, lastFailure := 10\<rparr>) = OPEN
   \<and> timeout (NewCircuitBreaker 3 5\<lparr>state := OPEN, failureCount := 3, lastFailure := 10\<rparr>)
       < Since (now \<lparr>now = 16\<rparr>)
           (lastFailure (NewCircuitBreaker 3 5\<lparr>state := OPEN, failureCount := 3, lastFailure := 10\<rparr>))
   \<and> Call (NewCircuitBreaker 3 5\<lparr>state := OPEN, failureCount := 3, lastFailure := 10\<rparr>)
         (\<lambda>w. (Some (OpError ()), w\<lparr>now := now w + 2\<rparr>)) \<lparr>now = 16\<rparr>
       = (Some (OpError ()),
          NewCircuitBreaker 3 5\<lparr>state := OPEN, failureCount := 1, lastFailure := 18\<rparr>,
          \<lparr>now = 18\<rparr>)
   \<and> state (NewCircuitBreaker 3 5\<lparr>state := OPEN, failureCount := 1, lastFailure := 18\<rparr>) = OPEN
   \<and> lastFailure (NewCircuitBreaker 3 5\<lparr>state := OPEN, failureCount := 1, lastFailure := 18\<rparr>)
       = now \<lparr>now = 18\<rparr>"
proof -
  let ?cb = "NewCircuitBreaker 3 5\<lparr>state := OPEN, failureCount := 3, lastFailure := 10\<rparr>"
  let ?cb' = "NewCircuitBreaker 3 5\<lparr>state := OPEN, failureCount := 1, lastFailure := 18\<rparr>"
  let ?fn = "(\<lambda>w. (Some (OpError ()), w\<lparr>now := now w + 2\<rparr>)) :: (unit, unit) operation"
  have s: "state ?cb = OPEN"
    by (simp add: NewCircuitBreaker_def)
  have t: "timeout ?cb < Since (now \<lparr>now = 16\<rparr>) (lastFailure ?cb)"
    by (simp add: NewCircuitBreaker_def Since_def maxDuration_def minDuration_def)
  have c: "Call ?cb ?fn \<lparr>now = 16\<rparr> = (Some (OpError ()), ?cb', \<lparr>now = 18\<rparr>)"
    by (simp add: eval_defs)
  from s t have h: "(state ?cb = OPEN \<and> timeout ?cb < Since (now \<lparr>now = 16\<rparr>) (lastFailure ?cb))
      \<or> state ?cb = HALF_OPEN" by simp
  from half_open_probe_resolves [OF h c] s t c
  show ?thesis by simp
qed

subsection \<open>Successes and the failure count\<close>

text \<open>
  Claim C5. Whenever the operation is invoked and succeeds, in any state of the breaker,
  the call returns \<^verbatim>\<open>nil\<close> and the failure count is 0 after it. So, on a closed
  breaker with threshold 3 that has counted at most one failure (a new one has counted
  none), the sequence failure, success, failure, failure leaves the breaker \<open>CLOSED\<close>,
  with a count of 2: it does not open.
\<close>

theorem success_resets_count:
  "(invokes cb w \<and> fst (fn w) = None \<longrightarrow>
      fst (Call cb fn w) = None \<and> failureCount (fst (snd (Call cb fn w))) = 0)
   \<and> (state cb0 = CLOSED \<and> failureThreshold cb0 = 3 \<and> sint (failureCount cb0) < 2 \<longrightarrow>
      state (fst (snd (Calls cb0
         [(g1, failing e1), (g2, succeeding), (g3, failing e3), (g4, failing e4)] w0))) = CLOSED
      \<and> failureCount (fst (snd (Calls cb0
         [(g1, failing e1), (g2, succeeding), (g3, failing e3), (g4, failing e4)] w0))) = 2)"
proof (intro conjI impI)
  assume a: "invokes cb w \<and> fst (fn w) = None"
  then obtain w1 where f: "fn w = (None, w1)" by (cases "fn w") simp
  from a f show "fst (Call cb fn w) = None"
    by (auto simp add: invokes_def Call_def Call_admit_def)
  from a f show "failureCount (fst (snd (Call cb fn w))) = 0"
    by (auto simp add: invokes_def Call_def Call_admit_def Call_record_def)
next
  let ?rqs = "[(g1, failing e1), (g2, succeeding), (g3, failing e3), (g4, failing e4)]"
  assume a: "state cb0 = CLOSED \<and> failureThreshold cb0 = 3 \<and> sint (failureCount cb0) < 2"
  have "sint (failureCount cb0) < sint (3 :: 64 word)" using a by simp
  then have "sint (failureCount cb0 + 1) = sint (failureCount cb0) + 1" by (rule sint_incr)
  then have n: "\<not> (3 :: 64 word) \<le>s failureCount cb0 + 1"
    using a by (simp add: word_sle_eq)
  have c1: "Call cb0 (failing e1) (g1 w0) =
      (Some e1, cb0\<lparr>failureCount := failureCount cb0 + 1, lastFailure := now (g1 w0)\<rparr>, g1 w0)"
    using a n by (simp add: Call_closed_failure [where ?w1.0 = "g1 w0"] failing_def)
  have r: "Calls cb0 ?rqs w0 =
      ([Some e1, None, Some e3, Some e4],
       cb0\<lparr>failureCount := 2, lastFailure := now (g4 (g3 (g2 (g1 w0))))\<rparr>,
       g4 (g3 (g2 (g1 w0))))"
    using a
    by (simp add: c1 Call_closed_failure [where ?w1.0 = "g3 (g2 (g1 w0))"]
        Call_closed_failure [where ?w1.0 = "g4 (g3 (g2 (g1 w0)))"]
        Call_closed_success [where ?w1.0 = "g2 (g1 w0)"] failing_def succeeding_def
        word_sle_eq)
  show "state (fst (snd (Calls cb0 ?rqs w0))) = CLOSED" unfolding r using a by simp
  show "failureCount (fst (snd (Calls cb0 ?rqs w0))) = 2" unfolding r by simp
qed

theorem success_resets_count_witness:
  "invokes (NewCircuitBreaker 3 5\<lparr>failureCount := 2, lastFailure := 10\<rparr>) \<lparr>now = 11\<rparr>
   \<and> fst ((succeeding :: (unit, unit) operation) \<lparr>now = 11\<rparr>) = None
   \<and> failureCount (fst (snd (Call (NewCircuitBreaker 3 5\<lparr>failureCount := 2, lastFailure := 10\<rparr>)
        (succeeding :: (unit, unit) operation) \<lparr>now = 11\<rparr>))) = 0
   \<and> state (NewCircuitBreaker 3 5) = CLOSED \<and> failureThreshold (NewCircuitBreaker 3 5) = 3
   \<and> sint (failureCount (NewCircuitBreaker 3 5)) < 2
   \<and> state (fst (snd (Calls (NewCircuitBreaker 3 5)
        [(id, failing (OpError ())), (id, succeeding), (id, failing (OpError ())),
         (id, failing (OpError ()))] \<lparr>now = 0\<rparr>))) = CLOSED"
proof -
  let ?cb = "NewCircuitBreaker 3 5\<lparr>failureCount := 2, lastFailure := 10\<rparr>"
  let ?fn = "succeeding :: (unit, unit) operation"
  let ?e = "OpError () :: unit error"
  have a: "invokes ?cb \<lparr>now = 11\<rparr> \<and> fst (?fn \<lparr>now = 11\<rparr>) = None"
    by (simp add: invokes_def NewCircuitBreaker_def succeeding_def)
  have b: "state (NewCircuitBreaker 3 5) = CLOSED \<and> failureThreshold (NewCircuitBreaker 3 5) = 3
      \<and> sint (failureCount (NewCircuitBreaker 3 5)) < 2"
    by (simp add: NewCircuitBreaker_def)
  from success_resets_count
    [of ?cb "\<lparr>now = 11\<rparr>" ?fn "NewCircuitBreaker 3 5" id ?e id id ?e id ?e "\<lparr>now = 0\<rparr>"] a b
  show ?thesis by blast
qed

subsection \<open>What the caller gets back\<close>

text \<open>
  Claim C6. Whenever the operation is invoked, the call returns exactly what the
  operation returned: the same error value when it failed, \<^verbatim>\<open>nil\<close> when it
  succeeded.
\<close>

theorem operation_result_passed_through:
  assumes "invokes cb w"
  shows "fst (Call cb fn w) = fst (fn w)"
  using assms
  by (auto simp add: invokes_def Call_def Call_admit_def split: prod.splits)

theorem operation_result_passed_through_witness:
  "invokes (NewCircuitBreaker 3 5) \<lparr>now = 0\<rparr>
   \<and> fst (Call (NewCircuitBreaker 3 5) (failing (OpError (42 :: nat)) :: (nat, unit) operation)
        \<lparr>now = 0\<rparr>) = Some (OpError 42)"
proof -
  let ?fn = "failing (OpError (42 :: nat)) :: (nat, unit) operation"
  have a: "invokes (NewCircuitBreaker 3 5) \<lparr>now = 0\<rparr>"
    by (simp add: invokes_def NewCircuitBreaker_def)
  from operation_result_passed_through [OF a, of ?fn] a
  show ?thesis by (simp add: failing_def)
qed

text \<open>
  Claim C7, as stated, fails: the rejection is an error value built by \<^verbatim>\<open>fmt.Errorf\<close>
  from a fixed message, and an operation can return a value built the same way from the
  same message. On a new breaker the operation is invoked, and the call returns what a
  rejected call on an open breaker returns.
\<close>

theorem rejection_error_distinct_counterexample:
  "invokes (NewCircuitBreaker 3 5) \<lparr>now = 0\<rparr>
   \<and> fst (Call (NewCircuitBreaker 3 5)
        (failing (ErrorString ''circuit breaker is OPEN'') :: (unit, unit) operation)
        \<lparr>now = 0\<rparr>) = Some BreakerOpenError
   \<and> \<not> invokes (NewCircuitBreaker 3 5\<lparr>state := OPEN, failureCount := 3, lastFailure := 0\<rparr>)
        \<lparr>now = 0\<rparr>
   \<and> fst (Call (NewCircuitBreaker 3 5\<lparr>state := OPEN, failureCount := 3, lastFailure := 0\<rparr>)
        (succeeding :: (unit, unit) operation) \<lparr>now = 0\<rparr>) = Some BreakerOpenError"
  by (simp add: eval_defs)

text \<open>
  Claim C7, amended. A rejected call returns the error value whose message is
  \<^verbatim>\<open>circuit breaker is OPEN\<close>. A call in which the operation is invoked returns that
  value exactly when the operation itself returned it; after a success, or any other
  error of the operation, the result differs from the rejection.
\<close>

theorem rejection_error_distinct_by_message:
  "(\<not> invokes cb w \<longrightarrow> fst (Call cb fn w) = Some (ErrorString ''circuit breaker is OPEN''))
   \<and> (invokes cb w \<longrightarrow>
        (fst (Call cb fn w) = Some BreakerOpenError
         \<longleftrightarrow> fst (fn w) = Some (ErrorString ''circuit breaker is OPEN'')))"
  by (auto simp add: invokes_def Call_def Call_admit_def BreakerOpenError_def split: prod.splits)

theorem rejection_error_distinct_by_message_witness:
  "\<not> invokes (NewCircuitBreaker 3 5\<lparr>state := OPEN, failureCount := 3, lastFailure := 0\<rparr>)
        \<lparr>now = 0\<rparr>
   \<and> fst (Call (NewCircuitBreaker 3 5\<lparr>state := OPEN, failureCount := 3, lastFailure := 0\<rparr>)
        (succeeding :: (unit, unit) operation) \<lparr>now = 0\<rparr>)
       = Some (ErrorString ''circuit breaker is OPEN'')
   \<and> invokes (NewCircuitBreaker 3 5) \<lparr>now = 0\<rparr>
   \<and> fst ((failing (ErrorString ''service unavailable'') :: (unit, unit) operation) \<lparr>now = 0\<rparr>)
       \<noteq> Some (ErrorString ''circuit breaker is OPEN'')
   \<and> fst (Call (NewCircuitBreaker 3 5)
        (failing (ErrorString ''service unavailable'') :: (unit, unit) operation) \<lparr>now = 0\<rparr>)
       \<noteq> Some BreakerOpenError"
proof -
  let ?open = "NewCircuitBreaker 3 5\<lparr>state := OPEN, failureCount := 3, lastFailure := 0\<rparr>"
  let ?fn = "failing (ErrorString ''service unavailable'') :: (unit, unit) operation"
  have a: "\<not> invokes ?open \<lparr>now = 0\<rparr>"
    by (simp add: invokes_def NewCircuitBreaker_def Since_def maxDuration_def minDuration_def)
  have b: "invokes (NewCircuitBreaker 3 5) \<lparr>now = 0\<rparr>"
    by (simp add: invokes_def NewCircuitBreaker_def)
  have c: "fst (?fn \<lparr>now = 0\<rparr>) \<noteq> Some (ErrorString ''circuit breaker is OPEN'')"
    by (simp add: failing_def)
  from rejection_error_distinct_by_message
      [of ?open "\<lparr>now = 0\<rparr>" "succeeding :: (unit, unit) operation"]
    rejection_error_distinct_by_message [of "NewCircuitBreaker 3 5" "\<lparr>now = 0\<rparr>" ?fn] a b c
  show ?thesis by blast
qed

subsection \<open>Construction\<close>

text \<open>
  Claim C8, as stated, fails: \<^verbatim>\<open>NewCircuitBreaker\<close> checks nothing and has no error
  to return. With threshold 0 it returns a closed breaker that runs the operations
  handed to it.
\<close>

theorem construct_rejects_nonpositive_counterexample:
  "sint (0 :: 64 word) \<le> 0
   \<and> NewCircuitBreaker 0 5
       = \<lparr>state = CLOSED, failureCount = 0, lastFailure = zeroTime, failureThreshold = 0,
          timeout = 5\<rparr>
   \<and> invokes (NewCircuitBreaker 0 5) \<lparr>now = 0\<rparr>
   \<and> Call (NewCircuitBreaker 0 5) (succeeding :: (unit, unit) operation) \<lparr>now = 0\<rparr>
       = (None, NewCircuitBreaker 0 5, \<lparr>now = 0\<rparr>)"
  by (simp add: Call_def Call_admit_def Call_record_def NewCircuitBreaker_def succeeding_def
      invokes_def)

text \<open>
  Claim C8, amended. Construction never rejects: for every threshold less than or equal
  to 0, \<^verbatim>\<open>NewCircuitBreaker\<close> returns a breaker that is closed with a failure count of 0
  and that threshold. Such a breaker invokes the operation of its first call; a success
  leaves it as it is, and the first failure opens it.
\<close>

theorem construct_accepts_nonpositive:
  assumes "sint thr \<le> 0"
  shows "state (NewCircuitBreaker thr tmo) = CLOSED
         \<and> failureCount (NewCircuitBreaker thr tmo) = 0
         \<and> failureThreshold (NewCircuitBreaker thr tmo) = thr
         \<and> invokes (NewCircuitBreaker thr tmo) w
         \<and> (fn w = (None, w1) \<longrightarrow>
              Call (NewCircuitBreaker thr tmo) fn w = (None, NewCircuitBreaker thr tmo, w1))
         \<and> (fn w = (Some e, w1) \<longrightarrow>
              Call (NewCircuitBreaker thr tmo) fn w
                = (Some e,
                   NewCircuitBreaker thr tmo
                     \<lparr>state := OPEN, failureCount := 1, lastFailure := now w1\<rparr>,
                   w1))"
  using assms
  by (simp add: Call_def Call_admit_def Call_record_def NewCircuitBreaker_def invokes_def
      word_sle_eq)

theorem construct_accepts_nonpositive_witness:
  "sint (- 1 :: 64 word) \<le> 0
   \<and> state (NewCircuitBreaker (- 1) 5) = CLOSED
   \<and> Call (NewCircuitBreaker (- 1) 5) (failing (OpError ()) :: (unit, unit) operation)
        \<lparr>now = 7\<rparr>
       = (Some (OpError ()),
          NewCircuitBreaker (- 1) 5\<lparr>state := OPEN, failureCount := 1, lastFailure := 7\<rparr>,
          \<lparr>now = 7\<rparr>)"
proof -
  let ?fn = "failing (OpError ()) :: (unit, unit) operation"
  have a: "sint (- 1 :: 64 word) \<le> 0" by simp
  have f: "?fn \<lparr>now = 7\<rparr> = (Some (OpError ()), \<lparr>now = 7\<rparr>)"
    by (simp add: failing_def)
  from construct_accepts_nonpositive
    [OF a, of 5 "\<lparr>now = 7\<rparr>" ?fn "\<lparr>now = 7\<rparr>" "OpError ()"] a f
  show ?thesis by simp
qed

subsection \<open>States between calls\<close>

text \<open>
  On the operations that return, \<open>Call_exit\<close> is \<open>Call\<close>: the properties above, which
  are about operations that return or about calls that do not reach line 61, hold of it
  as they stand.
\<close>

lemma Call_exit_returning:
  "Call_exit cb (returning fn) w = (case Call cb fn w of (r, cb', w') \<Rightarrow> (Returns r, cb', w'))"
  by (simp add: Call_exit_def Call_def returning_def split: sum.splits prod.splits)

text \<open>A call that returns does not leave the breaker half-open, wherever it started.\<close>

lemma Call_exit_returns_not_half_open:
  assumes "Call_exit cb fn w = (Returns r, cb', w')"
  shows "state cb' \<noteq> HALF_OPEN"
  using assms
  by (auto simp add: Call_exit_def Call_admit_def Call_record_def Let_def
      split: if_splits prod.splits option.splits outcome.splits)

text \<open>
  After a sequence of calls the breaker is half-open only if it was so before a sequence
  of no calls, or the last call of the sequence did not return.
\<close>

lemma Calls_exit_half_open:
  assumes "Calls_exit cb rqs w = (rs, cb', w')" and "state cb' = HALF_OPEN"
  shows "(rqs = [] \<and> state cb = HALF_OPEN) \<or> (rs \<noteq> [] \<and> last rs = Panics)"
  using assms
proof (induction rqs arbitrary: cb w rs)
  case Nil
  then show ?case by simp
next
  case (Cons rq rqs)
  obtain gap fn where rq: "rq = (gap, fn)" by (cases rq)
  obtain r cb1 w1 where c: "Call_exit cb fn (gap w) = (r, cb1, w1)"
    by (cases "Call_exit cb fn (gap w)")
  obtain rs1 where rest: "Calls_exit cb1 rqs w1 = (rs1, cb', w')" and rs: "rs = r # rs1"
    using Cons.prems(1) by (auto simp add: rq c split: prod.splits)
  from Cons.IH [OF rest Cons.prems(2)]
  have "(rqs = [] \<and> state cb1 = HALF_OPEN) \<or> (rs1 \<noteq> [] \<and> last rs1 = Panics)" .
  then show ?case
  proof
    assume a: "rqs = [] \<and> state cb1 = HALF_OPEN"
    then have "rs1 = []" using rest by simp
    moreover have "r = Panics"
      using Call_exit_returns_not_half_open [of cb fn "gap w" _ cb1 w1] c a by (cases r) auto
    ultimately show ?thesis by (simp add: rs)
  next
    assume "rs1 \<noteq> [] \<and> last rs1 = Panics"
    then show ?thesis by (simp add: rs)
  qed
qed

text \<open>
  Claim C10, as stated, fails: a call that has moved the breaker to \<open>HALF_OPEN\<close> and
  whose operation panics ends without resolving that state. A new breaker with
  threshold 1 is opened by one failure; the next call arrives after the timeout, writes
  \<open>HALF_OPEN\<close> and a count of 0, and its operation panics; no call is in progress
  after it, and \<^verbatim>\<open>GetState\<close> answers \<open>HALF_OPEN\<close>.
\<close>

theorem half_open_after_panic_counterexample:
  "Call_exit (NewCircuitBreaker 1 5) (returning (failing (OpError ())) :: (unit, unit) go_func)
       \<lparr>now = 0\<rparr>
     = (Returns (Some (OpError ())),
        NewCircuitBreaker 1 5\<lparr>state := OPEN, failureCount := 1, lastFailure := 0\<rparr>,
        \<lparr>now = 0\<rparr>)
   \<and> Call_exit (NewCircuitBreaker 1 5\<lparr>state := OPEN, failureCount := 1, lastFailure := 0\<rparr>)
       (panicking :: (unit, unit) go_func) \<lparr>now = 6\<rparr>
     = (Panics,
        NewCircuitBreaker 1 5\<lparr>state := HALF_OPEN, failureCount := 0, lastFailure := 0\<rparr>,
        \<lparr>now = 6\<rparr>)
   \<and> GetState (fst (snd (Calls_exit (NewCircuitBreaker 1 5)
        [(id, returning (failing (OpError ()))), (\<lambda>w. w\<lparr>now := 6\<rparr>, panicking)]
        \<lparr>now = 0 :: int\<rparr>))) = HALF_OPEN"
  by (simp add: Call_exit_def returning_def panicking_def eval_defs)

text \<open>
  Claim C10, amended. A new breaker is \<open>CLOSED\<close>, and every call that returns, from
  whatever breaker it starts, leaves the breaker \<open>CLOSED\<close> or \<open>OPEN\<close>: a call that
  moved it to \<open>HALF_OPEN\<close> and whose operation returns has resolved that state before
  it returns. A call whose operation does not return leaves the breaker as lines 52-59
  set it, which is \<open>HALF_OPEN\<close> with a count of 0 when the call found it \<open>OPEN\<close>. So
  after any sequence of calls on a new breaker \<^verbatim>\<open>GetState\<close> answers \<open>HALF_OPEN\<close> only
  if the last call of the sequence did not return.
\<close>

theorem never_half_open_after_return:
  "GetState (NewCircuitBreaker thr tmo) = CLOSED
   \<and> (fst (Call_exit cb fn w) = Returns r \<longrightarrow>
        GetState (fst (snd (Call_exit cb fn w))) = CLOSED
        \<or> GetState (fst (snd (Call_exit cb fn w))) = OPEN)
   \<and> (invokes cb w \<and> fn w = (Panics, w1) \<longrightarrow>
        Call_exit cb fn w
          = (Panics,
             (if state cb = OPEN then cb\<lparr>state := HALF_OPEN, failureCount := 0\<rparr> else cb),
             w1))
   \<and> (GetState (fst (snd (Calls_exit (NewCircuitBreaker thr tmo) rqs w0))) = HALF_OPEN \<longrightarrow>
        fst (Calls_exit (NewCircuitBreaker thr tmo) rqs w0) \<noteq> []
        \<and> last (fst (Calls_exit (NewCircuitBreaker thr tmo) rqs w0)) = Panics)"
proof (intro conjI impI)
  show "GetState (NewCircuitBreaker thr tmo) = CLOSED"
    by (simp add: GetState_def NewCircuitBreaker_def)
next
  assume a: "fst (Call_exit cb fn w) = Returns r"
  obtain cb' w' where c: "Call_exit cb fn w = (Returns r, cb', w')"
    using a by (cases "Call_exit cb fn w") simp
  have "state cb' \<noteq> HALF_OPEN" using c by (rule Call_exit_returns_not_half_open)
  then show "GetState (fst (snd (Call_exit cb fn w))) = CLOSED
      \<or> GetState (fst (snd (Call_exit cb fn w))) = OPEN"
    by (cases "state cb'") (simp_all add: c GetState_def)
next
  assume "invokes cb w \<and> fn w = (Panics, w1)"
  then show "Call_exit cb fn w
      = (Panics, (if state cb = OPEN then cb\<lparr>state := HALF_OPEN, failureCount := 0\<rparr> else cb), w1)"
    by (auto simp add: invokes_def Call_exit_def Call_admit_def)
next
  let ?run = "Calls_exit (NewCircuitBreaker thr tmo) rqs w0"
  assume h: "GetState (fst (snd ?run)) = HALF_OPEN"
  obtain rs cb' w' where c: "?run = (rs, cb', w')" by (cases ?run)
  have "state cb' = HALF_OPEN" using h by (simp add: c GetState_def)
  from Calls_exit_half_open [OF c this]
  have r: "rs \<noteq> [] \<and> last rs = Panics" by (simp add: NewCircuitBreaker_def)
  from r show "fst ?run \<noteq> []" by (simp add: c)
  from r show "last (fst ?run) = Panics" by (simp add: c)
qed

theorem never_half_open_after_return_witness:
  "fst (Call_exit (NewCircuitBreaker 3 5\<lparr>state := OPEN, failureCount := 3, lastFailure := 10\<rparr>)
        (returning (failing (OpError ())) :: (unit, unit) go_func) \<lparr>now = 16\<rparr>)
     = Returns (Some (OpError ()))
   \<and> GetState (fst (snd (Call_exit
        (NewCircuitBreaker 3 5\<lparr>state := OPEN, failureCount := 3, lastFailure := 10\<rparr>)
        (returning (failing (OpError ())) :: (unit, unit) go_func) \<lparr>now = 16\<rparr>))) = OPEN
   \<and> invokes (NewCircuitBreaker 3 5\<lparr>state := OPEN, failureCount := 3, lastFailure := 10\<rparr>)
        \<lparr>now = 16\<rparr>
   \<and> (panicking :: (unit, unit) go_func) \<lparr>now = 16\<rparr> = (Panics, \<lparr>now = 16\<rparr>)
   \<and> Call_exit (NewCircuitBreaker 3 5\<lparr>state := OPEN, failureCount := 3, lastFailure := 10\<rparr>)
        (panicking :: (unit, unit) go_func) \<lparr>now = 16\<rparr>
     = (Panics,
        NewCircuitBreaker 3 5\<lparr>state := HALF_OPEN, failureCount := 0, lastFailure := 10\<rparr>,
        \<lparr>now = 16\<rparr>)
   \<and> GetState (fst (snd (Calls_exit (NewCircuitBreaker 1 5)
        [(id, returning (failing (OpError ()))), (\<lambda>w. w\<lparr>now := 6\<rparr>, panicking)]
        \<lparr>now = 0 :: int\<rparr>))) = HALF_OPEN
   \<and> last (fst (Calls_exit (NewCircuitBreaker 1 5)
        [(id, returning (failing (OpError ()))), (\<lambda>w. w\<lparr>now := 6\<rparr>, panicking)]
        \<lparr>now = 0 :: int\<rparr>)) = (Panics :: unit outcome)"
proof -
  let ?cb = "NewCircuitBreaker 3 5\<lparr>state := OPEN, failureCount := 3, lastFailure := 10\<rparr>"
  let ?f = "returning (failing (OpError ())) :: (unit, unit) go_func"
  let ?p = "panicking :: (unit, unit) go_func"
  let ?rqs = "[(id, ?f), (\<lambda>w. w\<lparr>now := 6\<rparr>, ?p)]"
  have a: "fst (Call_exit ?cb ?f \<lparr>now = 16\<rparr>) = Returns (Some (OpError ()))"
    by (simp add: Call_exit_def returning_def eval_defs)
  have b: "GetState (fst (snd (Call_exit ?cb ?f \<lparr>now = 16\<rparr>))) \<noteq> CLOSED"
    by (simp add: Call_exit_def returning_def eval_defs)
  have c: "invokes ?cb \<lparr>now = 16\<rparr> \<and> ?p \<lparr>now = 16\<rparr> = (Panics, \<lparr>now = 16\<rparr>)"
    by (simp add: panicking_def eval_defs)
  have d: "GetState (fst (snd (Calls_exit (NewCircuitBreaker 1 5) ?rqs \<lparr>now = 0\<rparr>))) = HALF_OPEN"
    by (simp add: Call_exit_def returning_def panicking_def eval_defs)
  have e: "state ?cb = OPEN" by (simp add: NewCircuitBreaker_def)
  from never_half_open_after_return
      [of 3 5 ?cb ?f "\<lparr>now = 16\<rparr>" "Some (OpError ())" "\<lparr>now = 16\<rparr>" "[]" "\<lparr>now = 0\<rparr>"]
    never_half_open_after_return
      [of 1 5 ?cb ?p "\<lparr>now = 16\<rparr>" None "\<lparr>now = 16\<rparr>" ?rqs "\<lparr>now = 0\<rparr>"]
    a b c d e
  show ?thesis by (simp add: NewCircuitBreaker_def)
qed

end
